theory Spec2Isabelle
  imports Complex_Main "HOL-Library.Sublist"
begin

section \<open>The cryostat log notebook (ipynb/plots.ipynb)\<close>

text \<open>
  The notebook is Python 2 code (\<^verbatim>\<open>map\<close> returns a list that is appended as a row) run
  with the numpy of that language version. Its cells read comma-separated log files into
  numpy arrays, keep the rows later than a time offset, scan a directory for the two kinds
  of log file and load all files of a kind into one array.

  The embedding follows the cells line by line. Python's and numpy's own operations
  (\<^verbatim>\<open>str.strip\<close>, \<^verbatim>\<open>str.lower\<close>, \<^verbatim>\<open>str.split\<close>, \<^verbatim>\<open>str.startswith\<close>, \<^verbatim>\<open>float\<close>,
  \<^verbatim>\<open>np.asarray\<close>, array indexing) are modelled as the language and the library define
  them; an exception is a value \<open>Inl e\<close> of the result type.
\<close>

subsection \<open>Python strings\<close>

text \<open>
  A Python 2 \<^verbatim>\<open>str\<close> is a byte string: \<^typ>\<open>string\<close>. The character classes are those of
  the C locale, as CPython's \<^verbatim>\<open>Py_ISSPACE\<close>, \<^verbatim>\<open>Py_ISDIGIT\<close> and \<^verbatim>\<open>Py_TOLOWER\<close> tables have
  them.
\<close>

definition isspace :: "char \<Rightarrow> bool" where
  "isspace c \<longleftrightarrow> (of_char c :: nat) = 32 \<or> 9 \<le> (of_char c :: nat) \<and> (of_char c :: nat) \<le> 13"

definition isdigit :: "char \<Rightarrow> bool" where
  "isdigit c \<longleftrightarrow> 48 \<le> (of_char c :: nat) \<and> (of_char c :: nat) \<le> 57"

definition tolower :: "char \<Rightarrow> char" where
  "tolower c =
     (if 65 \<le> (of_char c :: nat) \<and> (of_char c :: nat) \<le> 90
      then char_of ((of_char c :: nat) + 32) else c)"

text \<open>\<^verbatim>\<open>s.strip()\<close>: leading and trailing whitespace removed.\<close>

definition py_strip :: "string \<Rightarrow> string" where
  "py_strip s = rev (dropWhile isspace (rev (dropWhile isspace s)))"

text \<open>\<^verbatim>\<open>s.lower()\<close>: every upper-case ASCII letter replaced by its lower-case letter.\<close>

definition py_lower :: "string \<Rightarrow> string" where
  "py_lower s = map tolower s"

text \<open>
  \<^verbatim>\<open>s.split(',')\<close> with a one-character separator: the pieces between the separators,
  empty pieces kept; the result is never the empty list (\<^verbatim>\<open>''.split(',') == ['']\<close>).
\<close>

fun py_split :: "char \<Rightarrow> string \<Rightarrow> string list" where
  "py_split sep [] = [[]]"
| "py_split sep (c # cs) =
     (if c = sep then [] # py_split sep cs
      else (c # hd (py_split sep cs)) # tl (py_split sep cs))"

text \<open>\<^verbatim>\<open>s.startswith(p)\<close>.\<close>

definition startswith :: "string \<Rightarrow> string \<Rightarrow> bool" where
  "startswith s p \<longleftrightarrow> take (length p) s = p"

subsection \<open>Python floats\<close>

text \<open>
  A float is an IEEE 754 double: a finite number, an infinity or a NaN. The finite values
  are carried as reals. How a real result is rounded to the nearest double (and when it
  overflows to an infinity) is a parameter \<open>rnd\<close> of every operation that rounds: no
  property below depends on it. The sign of a zero is not modelled.
\<close>

datatype pyfloat = Finite real | PosInf | NegInf | NaN

type_synonym rounding = "real \<Rightarrow> pyfloat"

datatype error = ValueError | IOError | IndexError | NameError

fun float_neg :: "pyfloat \<Rightarrow> pyfloat" where
  "float_neg (Finite x) = Finite (- x)"
| "float_neg PosInf = NegInf"
| "float_neg NegInf = PosInf"
| "float_neg NaN = NaN"

text \<open>\<^verbatim>\<open>x - y\<close> on doubles.\<close>

fun float_sub :: "rounding \<Rightarrow> pyfloat \<Rightarrow> pyfloat \<Rightarrow> pyfloat" where
  "float_sub rnd (Finite x) (Finite y) = rnd (x - y)"
| "float_sub rnd NaN y = NaN"
| "float_sub rnd x NaN = NaN"
| "float_sub rnd PosInf PosInf = NaN"
| "float_sub rnd NegInf NegInf = NaN"
| "float_sub rnd PosInf y = PosInf"
| "float_sub rnd NegInf y = NegInf"
| "float_sub rnd (Finite x) PosInf = NegInf"
| "float_sub rnd (Finite x) NegInf = PosInf"

text \<open>\<^verbatim>\<open>x > y\<close> on doubles: false whenever an operand is a NaN.\<close>

fun float_gt :: "pyfloat \<Rightarrow> pyfloat \<Rightarrow> bool" where
  "float_gt (Finite x) (Finite y) \<longleftrightarrow> x > y"
| "float_gt PosInf (Finite y) \<longleftrightarrow> True"
| "float_gt PosInf NegInf \<longleftrightarrow> True"
| "float_gt (Finite x) NegInf \<longleftrightarrow> True"
| "float_gt x y \<longleftrightarrow> False"

subsubsection \<open>\<^verbatim>\<open>float(s)\<close> on a string\<close>

text \<open>
  CPython 2.7 (\<^verbatim>\<open>PyFloat_FromString\<close>, \<^verbatim>\<open>_Py_dg_strtod\<close>, \<^verbatim>\<open>_Py_parse_inf_or_nan\<close>): white
  space around the number is skipped; then an optional sign; then either a decimal number
  (digits, an optional point and digits, at least one digit in all, and an optional
  exponent \<^verbatim>\<open>e\<close> or \<^verbatim>\<open>E\<close> with an optional sign and at least one digit) or one of
  \<^verbatim>\<open>inf\<close>, \<^verbatim>\<open>infinity\<close>, \<^verbatim>\<open>nan\<close> in any mix of cases. Anything left over, or no number at
  all, raises \<^verbatim>\<open>ValueError\<close>.
\<close>

definition parse_sign :: "string \<Rightarrow> bool \<times> string" where
  "parse_sign s =
     (case s of
        [] \<Rightarrow> (False, s)
      | c # r \<Rightarrow> if c = CHR ''-'' then (True, r) else if c = CHR ''+'' then (False, r) else (False, s))"

definition digit_val :: "char \<Rightarrow> int" where
  "digit_val c = of_char c - 48"

definition digits_val :: "string \<Rightarrow> int" where
  "digits_val ds = foldl (\<lambda>acc c. 10 * acc + digit_val c) 0 ds"

text \<open>
  The exponent part is read only when a digit follows the \<^verbatim>\<open>e\<close> and its sign; otherwise
  nothing is consumed.
\<close>

definition parse_exponent :: "string \<Rightarrow> int \<times> string" where
  "parse_exponent s =
     (case s of
        [] \<Rightarrow> (0, s)
      | c # r \<Rightarrow>
          if c = CHR ''e'' \<or> c = CHR ''E'' then
            (let (neg, r') = parse_sign r; ds = takeWhile isdigit r' in
             if ds = [] then (0, s)
             else ((if neg then - digits_val ds else digits_val ds),
                   dropWhile isdigit r'))
          else (0, s))"

text \<open>
  The decimal number without its sign: the digits before the point, the digits after it,
  the exponent, and the rest of the string. \<open>None\<close> when there is no digit.
\<close>

definition parse_decimal :: "string \<Rightarrow> ((string \<times> string \<times> int) \<times> string) option" where
  "parse_decimal s =
     (let ip = takeWhile isdigit s; r1 = dropWhile isdigit s;
          (fp, r2) = (case r1 of
                        [] \<Rightarrow> ([], r1)
                      | c # r \<Rightarrow> if c = CHR ''.''
                                 then (takeWhile isdigit r, dropWhile isdigit r)
                                 else ([], r1))
      in if ip = [] \<and> fp = [] then None
         else (let (ex, r3) = parse_exponent r2 in Some ((ip, fp, ex), r3)))"

text \<open>The number \<open>ip.fp\<close> times ten to the \<open>ex\<close>, before rounding.\<close>

definition decimal_value :: "string \<Rightarrow> string \<Rightarrow> int \<Rightarrow> real" where
  "decimal_value ip fp ex =
     (let m = real_of_int (digits_val (ip @ fp)); e = ex - int (length fp)
      in if 0 \<le> e then m * 10 ^ nat e else m / 10 ^ nat (- e))"

text \<open>
  \<^verbatim>\<open>inf\<close>, \<^verbatim>\<open>infinity\<close> or \<^verbatim>\<open>nan\<close>, each character compared after \<^verbatim>\<open>Py_TOLOWER\<close>; after
  \<^verbatim>\<open>inf\<close> the five characters \<^verbatim>\<open>inity\<close> are consumed only when all of them are there.
\<close>

definition parse_inf_or_nan :: "string \<Rightarrow> (pyfloat \<times> string) option" where
  "parse_inf_or_nan s =
     (if map tolower (take 3 s) = ''inf'' then
        (if map tolower (take 5 (drop 3 s)) = ''inity'' then Some (PosInf, drop 8 s)
         else Some (PosInf, drop 3 s))
      else if map tolower (take 3 s) = ''nan'' then Some (NaN, drop 3 s)
      else None)"

definition py_float :: "rounding \<Rightarrow> string \<Rightarrow> error + pyfloat" where
  "py_float rnd s =
     (let (neg, u) = parse_sign (py_strip s) in
      case parse_decimal u of
        Some ((ip, fp, ex), rest) \<Rightarrow>
          if rest = [] then
            Inr (rnd (if neg then - decimal_value ip fp ex else decimal_value ip fp ex))
          else Inl ValueError
      | None \<Rightarrow>
          (case parse_inf_or_nan u of
             Some (v, rest) \<Rightarrow>
               if rest = [] then Inr (if neg then float_neg v else v) else Inl ValueError
           | None \<Rightarrow> Inl ValueError))"

text \<open>
  \<^verbatim>\<open>map(float, fields)\<close>: the fields converted from left to right; the first field that
  is not a number raises.
\<close>

fun map_float :: "rounding \<Rightarrow> string list \<Rightarrow> error + pyfloat list" where
  "map_float rnd [] = Inr []"
| "map_float rnd (f # fs) =
     (case py_float rnd f of
        Inl e \<Rightarrow> Inl e
      | Inr x \<Rightarrow> (case map_float rnd fs of Inl e \<Rightarrow> Inl e | Inr xs \<Rightarrow> Inr (x # xs)))"

subsection \<open>Files\<close>

text \<open>
  The file system maps a path to the content of the file there. \<^verbatim>\<open>open(path)\<close> of a path
  with no file raises \<^verbatim>\<open>IOError\<close>. Iterating over an open file gives its lines, each with
  its newline character, the last one without when the file does not end in a newline.
\<close>

type_synonym filesystem = "string \<rightharpoonup> string"

definition open_file :: "filesystem \<Rightarrow> string \<Rightarrow> error + string" where
  "open_file fs path = (case fs path of None \<Rightarrow> Inl IOError | Some content \<Rightarrow> Inr content)"

fun file_lines :: "string \<Rightarrow> string list" where
  "file_lines [] = []"
| "file_lines (c # cs) =
     (if c = CHR 0x0A then [c] # file_lines cs
      else (case file_lines cs of [] \<Rightarrow> [[c]] | l # ls \<Rightarrow> (c # l) # ls))"

definition datadir :: string where
  "datadir = ''/path/to/data''"

subsection \<open>numpy arrays\<close>

text \<open>
  The arrays the notebook builds: a one-dimensional array of doubles, a two-dimensional
  array of doubles with its number of columns, and a one-dimensional array of Python
  objects (here: lists of floats).

  \<^verbatim>\<open>np.asarray\<close> of a list of lists of floats, in the numpy releases that run under
  Python 2 (up to 1.16): the empty list gives an empty one-dimensional array; rows of one
  length give a two-dimensional array; rows of different lengths give a one-dimensional
  array of the row objects, and no exception.
\<close>

datatype ndarray =
    Array1 "pyfloat list"
  | Array2 nat "pyfloat list list"
  | ObjArray "pyfloat list list"

definition asarray :: "pyfloat list list \<Rightarrow> ndarray" where
  "asarray rows =
     (case rows of
        [] \<Rightarrow> Array1 []
      | r # rs \<Rightarrow>
          if list_all (\<lambda>r'. length r' = length r) rs then Array2 (length r) rows
          else ObjArray rows)"

fun shape :: "ndarray \<Rightarrow> nat list" where
  "shape (Array1 xs) = [length xs]"
| "shape (Array2 k rows) = [length rows, k]"
| "shape (ObjArray rows) = [length rows]"

text \<open>The table of the specification: two dimensions, at least one column, every row that long.\<close>

fun table2d :: "ndarray \<Rightarrow> bool" where
  "table2d (Array2 k rows) \<longleftrightarrow> 0 < k \<and> list_all (\<lambda>r. length r = k) rows"
| "table2d (Array1 xs) \<longleftrightarrow> False"
| "table2d (ObjArray rows) \<longleftrightarrow> False"

subsection \<open>The log loader\<close>

text \<open>\<^verbatim>\<open>map(float, line.strip().lower().split(','))\<close>\<close>

definition parse_line :: "rounding \<Rightarrow> string \<Rightarrow> error + pyfloat list" where
  "parse_line rnd line = map_float rnd (py_split CHR '','' (py_lower (py_strip line)))"

text \<open>
  The lock-in loop of \<^verbatim>\<open>quickplot\<close> and of the cell after it, with the list \<^verbatim>\<open>run\<close> as
  accumulator:
  \<^verbatim>\<open>for line in run_file: run.append(map(float, line.strip().lower().split(',')))\<close>
\<close>

fun read_run :: "rounding \<Rightarrow> string list \<Rightarrow> pyfloat list list \<Rightarrow> error + pyfloat list list" where
  "read_run rnd [] run = Inr run"
| "read_run rnd (line # run_file) run =
     (case parse_line rnd line of
        Inl e \<Rightarrow> Inl e
      | Inr row \<Rightarrow> read_run rnd run_file (run @ [row]))"

text \<open>\<^verbatim>\<open>run = []\<close>, the loop over the opened file, \<^verbatim>\<open>run = np.asarray(run)\<close>.\<close>

definition load_run :: "rounding \<Rightarrow> filesystem \<Rightarrow> string \<Rightarrow> error + ndarray" where
  "load_run rnd fs lockinfile =
     (case open_file fs lockinfile of
        Inl e \<Rightarrow> Inl e
      | Inr content \<Rightarrow>
          (case read_run rnd (file_lines content) [] of
             Inl e \<Rightarrow> Inl e
           | Inr run \<Rightarrow> Inr (asarray run)))"

text \<open>
  The power-supply loop of the same two cells, with the list \<^verbatim>\<open>run_ps\<close>:
  \<^verbatim>\<open>for line in run_ps_file: run_ps.append(map(float, line.strip().lower().split(',')))\<close>
\<close>

fun read_run_ps :: "rounding \<Rightarrow> string list \<Rightarrow> pyfloat list list \<Rightarrow> error + pyfloat list list" where
  "read_run_ps rnd [] run_ps = Inr run_ps"
| "read_run_ps rnd (line # run_ps_file) run_ps =
     (case parse_line rnd line of
        Inl e \<Rightarrow> Inl e
      | Inr row \<Rightarrow> read_run_ps rnd run_ps_file (run_ps @ [row]))"

definition load_run_ps :: "rounding \<Rightarrow> filesystem \<Rightarrow> string \<Rightarrow> error + ndarray" where
  "load_run_ps rnd fs psfile =
     (case open_file fs psfile of
        Inl e \<Rightarrow> Inl e
      | Inr content \<Rightarrow>
          (case read_run_ps rnd (file_lines content) [] of
             Inl e \<Rightarrow> Inl e
           | Inr run_ps \<Rightarrow> Inr (asarray run_ps)))"

text \<open>
  The loader without its \<^verbatim>\<open>lower()\<close> step, to compare with: the line is stripped, split
  on commas and converted.
\<close>

definition parse_line_no_lower :: "rounding \<Rightarrow> string \<Rightarrow> error + pyfloat list" where
  "parse_line_no_lower rnd line = map_float rnd (py_split CHR '','' (py_strip line))"

subsection \<open>The threshold filter\<close>

text \<open>
  \<^verbatim>\<open>run = run[run[:,0]-1.426114e9>3400]\<close>, step by step. \<^verbatim>\<open>a[:,0]\<close> needs two dimensions
  and a column 0, and raises \<^verbatim>\<open>IndexError\<close> otherwise.
\<close>

definition column0 :: "ndarray \<Rightarrow> error + pyfloat list" where
  "column0 a =
     (case a of
        Array2 k rows \<Rightarrow> if k = 0 then Inl IndexError else Inr (map (\<lambda>r. r ! 0) rows)
      | Array1 xs \<Rightarrow> Inl IndexError
      | ObjArray rows \<Rightarrow> Inl IndexError)"

text \<open>\<^verbatim>\<open>col - c\<close> and \<^verbatim>\<open>col > c\<close> of a one-dimensional array and a scalar, element by element.\<close>

definition sub_scalar :: "rounding \<Rightarrow> pyfloat list \<Rightarrow> pyfloat \<Rightarrow> pyfloat list" where
  "sub_scalar rnd col c = map (\<lambda>x. float_sub rnd x c) col"

definition gt_scalar :: "pyfloat list \<Rightarrow> pyfloat \<Rightarrow> bool list" where
  "gt_scalar col c = map (\<lambda>x. float_gt x c) col"

text \<open>
  \<^verbatim>\<open>a[mask]\<close> with a boolean array: a new array of the entries along the first axis at
  which the mask is true, in their order. The mask must be as long as that axis.
\<close>

fun select :: "'a list \<Rightarrow> bool list \<Rightarrow> 'a list" where
  "select (x # xs) (b # bs) = (if b then x # select xs bs else select xs bs)"
| "select xs bs = []"

definition mask_index :: "ndarray \<Rightarrow> bool list \<Rightarrow> error + ndarray" where
  "mask_index a bmask =
     (case a of
        Array2 k rows \<Rightarrow>
          if length bmask = length rows then Inr (Array2 k (select rows bmask)) else Inl IndexError
      | Array1 xs \<Rightarrow>
          if length bmask = length xs then Inr (Array1 (select xs bmask)) else Inl IndexError
      | ObjArray rows \<Rightarrow>
          if length bmask = length rows then Inr (ObjArray (select rows bmask)) else Inl IndexError)"

text \<open>The reference epoch is the literal \<^verbatim>\<open>1.426114e9\<close>, a double exactly.\<close>

definition epoch :: pyfloat where
  "epoch = Finite 1426114000"

definition threshold_filter :: "rounding \<Rightarrow> pyfloat \<Rightarrow> ndarray \<Rightarrow> error + ndarray" where
  "threshold_filter rnd threshold run =
     (case column0 run of
        Inl e \<Rightarrow> Inl e
      | Inr col \<Rightarrow> mask_index run (gt_scalar (sub_scalar rnd col epoch) threshold))"

text \<open>A row is kept when its first entry minus the epoch exceeds the threshold.\<close>

definition later_than :: "rounding \<Rightarrow> pyfloat \<Rightarrow> pyfloat list \<Rightarrow> bool" where
  "later_than rnd threshold row \<longleftrightarrow> float_gt (float_sub rnd (row ! 0) epoch) threshold"

subsubsection \<open>The filter as an assignment\<close>

text \<open>
  The session's objects and names: the heap holds the arrays in the order of their
  creation, and a name is bound to the position of its array. The statement
  \<^verbatim>\<open>run = run[run[:,0]-1.426114e9>3400]\<close> evaluates its right-hand side (slicing reads the
  array, the subtraction, the comparison and the boolean indexing each build a new array)
  and binds the name to the new array. An exception leaves the session as it was.
\<close>

record pystate =
  heap :: "ndarray list"
  env :: "string \<rightharpoonup> nat"

definition filter_stmt :: "rounding \<Rightarrow> string \<Rightarrow> pyfloat \<Rightarrow> pystate \<Rightarrow> error + pystate" where
  "filter_stmt rnd name threshold s =
     (case env s name of
        None \<Rightarrow> Inl NameError
      | Some p \<Rightarrow>
          if p < length (heap s) then
            (case threshold_filter rnd threshold (heap s ! p) of
               Inl e \<Rightarrow> Inl e
             | Inr a \<Rightarrow> Inr (s\<lparr>heap := heap s @ [a], env := (env s)(name \<mapsto> length (heap s))\<rparr>))
          else Inl NameError)"

subsection \<open>The directory scan\<close>

text \<open>
  \<^verbatim>\<open>files = os.listdir(datadir)\<close> is the input: the names in the directory, in the order
  the system lists them. The loop has two independent \<^verbatim>\<open>if\<close> statements.
\<close>

fun scan_loop :: "string list \<Rightarrow> string list \<Rightarrow> string list \<Rightarrow> string list \<times> string list" where
  "scan_loop [] lockinfiles psfiles = (lockinfiles, psfiles)"
| "scan_loop (f # files) lockinfiles psfiles =
     (let lockinfiles' = (if startswith f ''lock-in'' then lockinfiles @ [f] else lockinfiles);
          psfiles' = (if startswith f ''power-supply'' then psfiles @ [f] else psfiles)
      in scan_loop files lockinfiles' psfiles')"

definition directory_scan :: "string list \<Rightarrow> string list \<times> string list" where
  "directory_scan files = scan_loop files [] []"

subsection \<open>Loading all files of a kind\<close>

text \<open>
  \<^verbatim>\<open>for f in lockinfiles: with open("%s/%s"%(datadir,f)) as fh: for line in fh: ...\<close>
  with the one list \<^verbatim>\<open>lockindata\<close> for all files, then \<^verbatim>\<open>np.asarray(lockindata)\<close>.
\<close>

fun read_lockindata :: "rounding \<Rightarrow> string list \<Rightarrow> pyfloat list list \<Rightarrow> error + pyfloat list list" where
  "read_lockindata rnd [] lockindata = Inr lockindata"
| "read_lockindata rnd (line # fh) lockindata =
     (case parse_line rnd line of
        Inl e \<Rightarrow> Inl e
      | Inr row \<Rightarrow> read_lockindata rnd fh (lockindata @ [row]))"

fun load_lockinfiles ::
  "rounding \<Rightarrow> filesystem \<Rightarrow> string list \<Rightarrow> pyfloat list list \<Rightarrow> error + pyfloat list list" where
  "load_lockinfiles rnd fs [] lockindata = Inr lockindata"
| "load_lockinfiles rnd fs (f # lockinfiles) lockindata =
     (case open_file fs (datadir @ ''/'' @ f) of
        Inl e \<Rightarrow> Inl e
      | Inr content \<Rightarrow>
          (case read_lockindata rnd (file_lines content) lockindata of
             Inl e \<Rightarrow> Inl e
           | Inr lockindata' \<Rightarrow> load_lockinfiles rnd fs lockinfiles lockindata'))"

definition load_lockindata :: "rounding \<Rightarrow> filesystem \<Rightarrow> string list \<Rightarrow> error + ndarray" where
  "load_lockindata rnd fs lockinfiles =
     (case load_lockinfiles rnd fs lockinfiles [] of
        Inl e \<Rightarrow> Inl e
      | Inr lockindata \<Rightarrow> Inr (asarray lockindata))"

text \<open>The power-supply cell, with \<^verbatim>\<open>psfiles\<close> and \<^verbatim>\<open>psdata\<close>.\<close>

fun read_psdata :: "rounding \<Rightarrow> string list \<Rightarrow> pyfloat list list \<Rightarrow> error + pyfloat list list" where
  "read_psdata rnd [] psdata = Inr psdata"
| "read_psdata rnd (line # fh) psdata =
     (case parse_line rnd line of
        Inl e \<Rightarrow> Inl e
      | Inr row \<Rightarrow> read_psdata rnd fh (psdata @ [row]))"

fun load_psfiles ::
  "rounding \<Rightarrow> filesystem \<Rightarrow> string list \<Rightarrow> pyfloat list list \<Rightarrow> error + pyfloat list list" where
  "load_psfiles rnd fs [] psdata = Inr psdata"
| "load_psfiles rnd fs (f # psfiles) psdata =
     (case open_file fs (datadir @ ''/'' @ f) of
        Inl e \<Rightarrow> Inl e
      | Inr content \<Rightarrow>
          (case read_psdata rnd (file_lines content) psdata of
             Inl e \<Rightarrow> Inl e
           | Inr psdata' \<Rightarrow> load_psfiles rnd fs psfiles psdata'))"

definition load_psdata :: "rounding \<Rightarrow> filesystem \<Rightarrow> string list \<Rightarrow> error + ndarray" where
  "load_psdata rnd fs psfiles =
     (case load_psfiles rnd fs psfiles [] of
        Inl e \<Rightarrow> Inl e
      | Inr psdata \<Rightarrow> Inr (asarray psdata))"

text \<open>The rows one file contributes: its lines, each parsed, in the file's order.\<close>

definition file_rows :: "rounding \<Rightarrow> filesystem \<Rightarrow> string \<Rightarrow> error + pyfloat list list" where
  "file_rows rnd fs path =
     (case open_file fs path of
        Inl e \<Rightarrow> Inl e
      | Inr content \<Rightarrow> read_run rnd (file_lines content) [])"

text \<open>
  For the multi-file load: whether the file of a listed name opens and parses, the rows
  it then contributes, and the rows of all files of the list, file after file.
\<close>

definition file_loads :: "rounding \<Rightarrow> filesystem \<Rightarrow> string \<Rightarrow> bool" where
  "file_loads rnd fs f \<longleftrightarrow>
     (case file_rows rnd fs (datadir @ ''/'' @ f) of Inr rows \<Rightarrow> True | Inl e \<Rightarrow> False)"

definition rows_of_file :: "rounding \<Rightarrow> filesystem \<Rightarrow> string \<Rightarrow> pyfloat list list" where
  "rows_of_file rnd fs f = projr (file_rows rnd fs (datadir @ ''/'' @ f))"

definition all_rows :: "rounding \<Rightarrow> filesystem \<Rightarrow> string list \<Rightarrow> pyfloat list list" where
  "all_rows rnd fs files = concat (map (rows_of_file rnd fs) files)"

text \<open>The fields of a line as the loader sees them, and the well-formed lines.\<close>

definition fields :: "string \<Rightarrow> string list" where
  "fields line = py_split CHR '','' (py_lower (py_strip line))"

definition numeric :: "rounding \<Rightarrow> string \<Rightarrow> bool" where
  "numeric rnd f \<longleftrightarrow> (case py_float rnd f of Inr x \<Rightarrow> True | Inl e \<Rightarrow> False)"

definition float_of :: "rounding \<Rightarrow> string \<Rightarrow> pyfloat" where
  "float_of rnd f = projr (py_float rnd f)"

definition well_formed :: "rounding \<Rightarrow> nat \<Rightarrow> string \<Rightarrow> bool" where
  "well_formed rnd k line \<longleftrightarrow> length (fields line) = k \<and> list_all (numeric rnd) (fields line)"

section \<open>Properties\<close>

subsection \<open>The directory scan\<close>

lemma scan_loop_filter:
  "scan_loop files l p =
     (l @ filter (\<lambda>f. startswith f ''lock-in'') files,
      p @ filter (\<lambda>f. startswith f ''power-supply'') files)"
  by (induction files arbitrary: l p) (simp_all add: Let_def)

lemma prefixes_exclusive:
  "startswith f ''lock-in'' \<Longrightarrow> \<not> startswith f ''power-supply''"
  by (cases f) (simp_all add: startswith_def)

text \<open>
  C5. For every listing \<open>files\<close> of the data directory, the scan puts a name in
  \<open>lockinfiles\<close> if and only if it is listed and starts with \<^verbatim>\<open>lock-in\<close>, and in \<open>psfiles\<close>
  if and only if it is listed and starts with \<^verbatim>\<open>power-supply\<close>; each list keeps the order
  of the listing (it is the listing filtered, a subsequence of it); and no name is in both
  lists.
\<close>

theorem directory_scan_partition:
  assumes "directory_scan files = (lockinfiles, psfiles)"
  shows "lockinfiles = filter (\<lambda>f. startswith f ''lock-in'') files
       \<and> psfiles = filter (\<lambda>f. startswith f ''power-supply'') files
       \<and> (\<forall>f. f \<in> set lockinfiles \<longleftrightarrow> f \<in> set files \<and> startswith f ''lock-in'')
       \<and> (\<forall>f. f \<in> set psfiles \<longleftrightarrow> f \<in> set files \<and> startswith f ''power-supply'')
       \<and> subseq lockinfiles files \<and> subseq psfiles files
       \<and> set lockinfiles \<inter> set psfiles = {}"
proof -
  from assms have l: "lockinfiles = filter (\<lambda>f. startswith f ''lock-in'') files"
    and p: "psfiles = filter (\<lambda>f. startswith f ''power-supply'') files"
    by (simp_all add: directory_scan_def scan_loop_filter)
  have "set lockinfiles \<inter> set psfiles = {}"
    using prefixes_exclusive by (auto simp: l p)
  then show ?thesis
    by (simp add: l p)
qed

theorem directory_scan_partition_witness:
  "directory_scan [''lock-in-1.log'', ''power-supply-2.log'', ''notes.txt'', ''lock-in-3.log'']
     = ([''lock-in-1.log'', ''lock-in-3.log''], [''power-supply-2.log''])
   \<and> subseq [''lock-in-1.log'', ''lock-in-3.log'']
        [''lock-in-1.log'', ''power-supply-2.log'', ''notes.txt'', ''lock-in-3.log'']
   \<and> set [''lock-in-1.log'', ''lock-in-3.log''] \<inter> set [''power-supply-2.log''] = {}"
proof -
  have h: "directory_scan [''lock-in-1.log'', ''power-supply-2.log'', ''notes.txt'', ''lock-in-3.log'']
     = ([''lock-in-1.log'', ''lock-in-3.log''], [''power-supply-2.log''])"
    by (simp add: directory_scan_def startswith_def)
  from directory_scan_partition [OF h] h show ?thesis by blast
qed

subsection \<open>The threshold filter\<close>

lemma select_map: "select rows (map P rows) = filter P rows"
  by (induction rows) simp_all

lemma threshold_filter_Array2:
  "0 < k \<Longrightarrow> threshold_filter rnd threshold (Array2 k rows)
     = Inr (Array2 k (filter (later_than rnd threshold) rows))"
proof -
  assume k: "0 < k"
  have "gt_scalar (sub_scalar rnd (map (\<lambda>r. r ! 0) rows) epoch) threshold
          = map (later_than rnd threshold) rows"
    by (simp add: gt_scalar_def sub_scalar_def later_than_def)
  with k show ?thesis
    by (simp add: threshold_filter_def column0_def mask_index_def select_map)
qed

lemma float_gt_irrefl: "\<not> float_gt x x"
  by (cases x) simp_all

lemma table2d_filter:
  "table2d (Array2 k rows) \<Longrightarrow> table2d (Array2 k (filter P rows))"
  by (simp add: list_all_iff)

text \<open>
  C2. For every table (two dimensions, at least one column) and every threshold, the
  filter returns a table of the same width whose rows are exactly the rows of the input
  whose first entry minus the epoch \<^verbatim>\<open>1.426114e9\<close> is greater than the threshold, in the
  order they have in the input.
\<close>

theorem threshold_filter_keeps_later_rows:
  assumes "table2d (Array2 k rows)"
  shows "\<exists>kept. threshold_filter rnd threshold (Array2 k rows) = Inr (Array2 k kept)
         \<and> kept = filter (\<lambda>r. float_gt (float_sub rnd (r ! 0) epoch) threshold) rows
         \<and> (\<forall>r. r \<in> set kept \<longleftrightarrow>
               r \<in> set rows \<and> float_gt (float_sub rnd (r ! 0) epoch) threshold)
         \<and> subseq kept rows"
proof -
  from assms have "0 < k" by simp
  then have "threshold_filter rnd threshold (Array2 k rows)
     = Inr (Array2 k (filter (later_than rnd threshold) rows))"
    by (rule threshold_filter_Array2)
  moreover have "later_than rnd threshold = (\<lambda>r. float_gt (float_sub rnd (r ! 0) epoch) threshold)"
    by (simp add: later_than_def fun_eq_iff)
  ultimately show ?thesis by simp
qed

theorem threshold_filter_keeps_later_rows_witness:
  "table2d (Array2 2 [[Finite 1426117000, Finite 1], [Finite 1426117400, Finite 2],
                      [Finite 1426117401, Finite 3]])
   \<and> threshold_filter Finite (Finite 3400)
        (Array2 2 [[Finite 1426117000, Finite 1], [Finite 1426117400, Finite 2],
                   [Finite 1426117401, Finite 3]])
      = Inr (Array2 2 [[Finite 1426117401, Finite 3]])"
proof -
  have t: "table2d (Array2 2 [[Finite 1426117000, Finite 1], [Finite 1426117400, Finite 2],
                      [Finite 1426117401, Finite 3]])"
    by simp
  from threshold_filter_keeps_later_rows [OF t, of Finite "Finite 3400"] t
  show ?thesis by (simp add: epoch_def)
qed

text \<open>
  C4. For every table and every threshold, the filter returns a table, and filtering that
  table again with the same threshold returns it unchanged.
\<close>

theorem threshold_filter_idempotent:
  assumes "table2d a"
  shows "\<exists>t. threshold_filter rnd threshold a = Inr t \<and> table2d t
           \<and> threshold_filter rnd threshold t = Inr t"
proof -
  from assms obtain k rows where a: "a = Array2 k rows" and k: "0 < k"
    by (cases a) simp_all
  let ?t = "Array2 k (filter (later_than rnd threshold) rows)"
  have "threshold_filter rnd threshold a = Inr ?t"
    using k by (simp add: a threshold_filter_Array2)
  moreover have "table2d ?t"
    using assms unfolding a by (rule table2d_filter)
  moreover have "threshold_filter rnd threshold ?t = Inr ?t"
    using k by (simp add: threshold_filter_Array2)
  ultimately show ?thesis by blast
qed

theorem threshold_filter_idempotent_witness:
  "table2d (Array2 2 [[Finite 1426117000, Finite 1], [Finite 1426117401, Finite 3]])
   \<and> threshold_filter Finite (Finite 3400)
        (Array2 2 [[Finite 1426117000, Finite 1], [Finite 1426117401, Finite 3]])
      = Inr (Array2 2 [[Finite 1426117401, Finite 3]])
   \<and> threshold_filter Finite (Finite 3400) (Array2 2 [[Finite 1426117401, Finite 3]])
      = Inr (Array2 2 [[Finite 1426117401, Finite 3]])"
proof -
  have t: "table2d (Array2 2 [[Finite 1426117000, Finite 1], [Finite 1426117401, Finite 3]])"
    by simp
  have f: "threshold_filter Finite (Finite 3400)
        (Array2 2 [[Finite 1426117000, Finite 1], [Finite 1426117401, Finite 3]])
      = Inr (Array2 2 [[Finite 1426117401, Finite 3]])"
    by (simp add: threshold_filter_def column0_def mask_index_def gt_scalar_def
          sub_scalar_def epoch_def)
  from threshold_filter_idempotent [OF t, of Finite "Finite 3400"] t f
  show ?thesis by auto
qed

text \<open>
  C8. A row of a table whose first entry minus the epoch is equal to the threshold is not
  among the rows the filter returns: the comparison is strict.
\<close>

theorem threshold_filter_strict:
  assumes "table2d (Array2 k rows)" and "r \<in> set rows"
    and "float_sub rnd (r ! 0) epoch = threshold"
  shows "\<exists>kept. threshold_filter rnd threshold (Array2 k rows) = Inr (Array2 k kept)
           \<and> r \<notin> set kept"
proof -
  from assms(1) have "0 < k" by simp
  then have "threshold_filter rnd threshold (Array2 k rows)
     = Inr (Array2 k (filter (later_than rnd threshold) rows))"
    by (rule threshold_filter_Array2)
  moreover have "\<not> later_than rnd threshold r"
    using assms(3) by (simp add: later_than_def float_gt_irrefl)
  ultimately show ?thesis by simp
qed

theorem threshold_filter_strict_witness:
  "table2d (Array2 2 [[Finite 1426117400, Finite 2], [Finite 1426117401, Finite 3]])
   \<and> float_sub Finite ([Finite 1426117400, Finite 2] ! 0) epoch = Finite 3400
   \<and> threshold_filter Finite (Finite 3400)
        (Array2 2 [[Finite 1426117400, Finite 2], [Finite 1426117401, Finite 3]])
      = Inr (Array2 2 [[Finite 1426117401, Finite 3]])"
proof -
  have t: "table2d (Array2 2 [[Finite 1426117400, Finite 2], [Finite 1426117401, Finite 3]])"
    by simp
  have m: "[Finite 1426117400, Finite 2]
             \<in> set [[Finite 1426117400, Finite 2], [Finite 1426117401, Finite 3]]"
    by simp
  have e: "float_sub Finite ([Finite 1426117400, Finite 2] ! 0) epoch = Finite 3400"
    by (simp add: epoch_def)
  have f: "threshold_filter Finite (Finite 3400)
        (Array2 2 [[Finite 1426117400, Finite 2], [Finite 1426117401, Finite 3]])
      = Inr (Array2 2 [[Finite 1426117401, Finite 3]])"
    by (simp add: threshold_filter_def column0_def mask_index_def gt_scalar_def
          sub_scalar_def epoch_def)
  from threshold_filter_strict [OF t m e] t e f show ?thesis by simp
qed

text \<open>
  C6. When the name is bound to a table, the filter statement succeeds and binds the name
  to a new array, one that was not in the heap before, holding the filtered table. Every
  array that was in the heap before, the input table among them, is unchanged, and so is
  the binding of every other name.
\<close>

theorem filter_stmt_frame:
  assumes "env s name = Some p" and "p < length (heap s)" and "table2d (heap s ! p)"
  shows "\<exists>s' q. filter_stmt rnd name threshold s = Inr s'
           \<and> env s' name = Some q
           \<and> length (heap s) \<le> q \<and> q < length (heap s')
           \<and> threshold_filter rnd threshold (heap s ! p) = Inr (heap s' ! q)
           \<and> (\<forall>i. i < length (heap s) \<longrightarrow> heap s' ! i = heap s ! i)
           \<and> (\<forall>x. x \<noteq> name \<longrightarrow> env s' x = env s x)"
proof -
  from assms(3) obtain k rows where a: "heap s ! p = Array2 k rows" and k: "0 < k"
    by (cases "heap s ! p") simp_all
  let ?t = "Array2 k (filter (later_than rnd threshold) rows)"
  let ?s' = "s\<lparr>heap := heap s @ [?t], env := (env s)(name \<mapsto> length (heap s))\<rparr>"
  have f: "threshold_filter rnd threshold (heap s ! p) = Inr ?t"
    using k by (simp add: a threshold_filter_Array2)
  have "filter_stmt rnd name threshold s = Inr ?s'"
    using assms(1,2) f by (simp add: filter_stmt_def)
  moreover have "env ?s' name = Some (length (heap s))" by simp
  moreover have "length (heap s) < length (heap ?s')" by simp
  moreover have "threshold_filter rnd threshold (heap s ! p) = Inr (heap ?s' ! length (heap s))"
    using f by simp
  moreover have "\<forall>i. i < length (heap s) \<longrightarrow> heap ?s' ! i = heap s ! i"
    by (simp add: nth_append)
  moreover have "\<forall>x. x \<noteq> name \<longrightarrow> env ?s' x = env s x" by simp
  ultimately show ?thesis by blast
qed

theorem filter_stmt_frame_witness:
  "filter_stmt Finite ''run'' (Finite 3400)
     \<lparr>heap = [Array2 2 [[Finite 1426117000, Finite 1], [Finite 1426117401, Finite 3]]],
      env = [''run'' \<mapsto> 0]\<rparr>
   = Inr \<lparr>heap = [Array2 2 [[Finite 1426117000, Finite 1], [Finite 1426117401, Finite 3]],
                  Array2 2 [[Finite 1426117401, Finite 3]]],
          env = [''run'' \<mapsto> 1]\<rparr>"
proof -
  let ?s = "\<lparr>heap = [Array2 2 [[Finite 1426117000, Finite 1], [Finite 1426117401, Finite 3]]],
      env = [''run'' \<mapsto> 0]\<rparr>"
  have e: "env ?s ''run'' = Some 0" by simp
  have p: "0 < length (heap ?s)" by simp
  have t: "table2d (heap ?s ! 0)" by simp
  from filter_stmt_frame [OF e p t, of Finite "Finite 3400"]
  obtain s' q where "filter_stmt Finite ''run'' (Finite 3400) ?s = Inr s'"
    and "env s' ''run'' = Some q" by blast
  then show ?thesis
    by (simp add: filter_stmt_def threshold_filter_def column0_def mask_index_def gt_scalar_def
          sub_scalar_def epoch_def)
qed

subsection \<open>The log loader\<close>

lemma py_float_error: "py_float rnd f = Inl e \<Longrightarrow> e = ValueError"
  by (auto simp: py_float_def Let_def split: prod.splits option.splits if_splits)

lemma numeric_iff: "numeric rnd f \<longleftrightarrow> py_float rnd f = Inr (float_of rnd f)"
  by (cases "py_float rnd f") (simp_all add: numeric_def float_of_def)

lemma not_numeric_iff: "\<not> numeric rnd f \<longleftrightarrow> py_float rnd f = Inl ValueError"
  by (cases "py_float rnd f") (auto simp: numeric_def dest: py_float_error)

lemma map_float_ok:
  "list_all (numeric rnd) fs \<Longrightarrow> map_float rnd fs = Inr (map (float_of rnd) fs)"
  by (induction fs) (simp_all add: numeric_iff)

lemma map_float_fail:
  "\<not> list_all (numeric rnd) fs \<Longrightarrow> map_float rnd fs = Inl ValueError"
proof (induction fs)
  case Nil
  then show ?case by simp
next
  case (Cons f fs)
  show ?case
  proof (cases "numeric rnd f")
    case True
    with Cons show ?thesis by (simp add: numeric_iff)
  next
    case False
    then show ?thesis by (simp add: not_numeric_iff)
  qed
qed

lemma read_run_ok:
  "list_all (\<lambda>line. list_all (numeric rnd) (fields line)) ls \<Longrightarrow>
   read_run rnd ls run = Inr (run @ map (\<lambda>line. map (float_of rnd) (fields line)) ls)"
  by (induction ls arbitrary: run) (simp_all add: map_float_ok fields_def parse_line_def)

lemma read_run_fail:
  "\<not> list_all (\<lambda>line. list_all (numeric rnd) (fields line)) ls \<Longrightarrow>
   read_run rnd ls run = Inl ValueError"
proof (induction ls arbitrary: run)
  case Nil
  then show ?case by simp
next
  case (Cons l ls)
  show ?case
  proof (cases "list_all (numeric rnd) (fields l)")
    case True
    with Cons.prems have "\<not> list_all (\<lambda>line. list_all (numeric rnd) (fields line)) ls"
      by simp
    then have "read_run rnd ls (run @ [map (float_of rnd) (fields l)]) = Inl ValueError"
      by (rule Cons.IH)
    with True show ?thesis
      using map_float_ok [of rnd "fields l"] by (simp add: fields_def parse_line_def)
  next
    case False
    then show ?thesis
      using map_float_fail [of rnd "fields l"] by (simp add: fields_def parse_line_def)
  qed
qed

lemma read_run_acc:
  "read_run rnd ls run =
     (case read_run rnd ls [] of Inl e \<Rightarrow> Inl e | Inr rows \<Rightarrow> Inr (run @ rows))"
proof (cases "list_all (\<lambda>line. list_all (numeric rnd) (fields line)) ls")
  case True
  then show ?thesis by (simp add: read_run_ok)
next
  case False
  then show ?thesis by (simp add: read_run_fail)
qed

lemma read_run_ps_eq: "read_run_ps rnd ls acc = read_run rnd ls acc"
  by (induction ls arbitrary: acc) (simp_all split: sum.splits)

lemma read_lockindata_eq: "read_lockindata rnd ls acc = read_run rnd ls acc"
  by (induction ls arbitrary: acc) (simp_all split: sum.splits)

lemma read_psdata_eq: "read_psdata rnd ls acc = read_run rnd ls acc"
  by (induction ls arbitrary: acc) (simp_all split: sum.splits)

lemma load_psfiles_eq: "load_psfiles rnd fs files acc = load_lockinfiles rnd fs files acc"
  by (induction files arbitrary: acc)
     (simp_all add: read_psdata_eq read_lockindata_eq split: sum.splits)

lemma py_split_nonempty: "py_split sep s \<noteq> []"
  by (induction s) simp_all

lemma fields_nonempty: "fields line \<noteq> []"
  by (simp add: fields_def py_split_nonempty)

lemma asarray_rect:
  "rows \<noteq> [] \<Longrightarrow> list_all (\<lambda>r. length r = k) rows \<Longrightarrow> asarray rows = Array2 k rows"
  by (cases rows) (auto simp: asarray_def list_all_iff)

lemma load_lockinfiles_concat:
  "list_all (\<lambda>f. file_rows rnd fs (datadir @ ''/'' @ f) = Inr (rows_of f)) files \<Longrightarrow>
   load_lockinfiles rnd fs files acc = Inr (acc @ concat (map rows_of files))"
proof (induction files arbitrary: acc)
  case Nil
  then show ?case by simp
next
  case (Cons f files)
  from Cons.prems have f: "file_rows rnd fs (datadir @ ''/'' @ f) = Inr (rows_of f)"
    and rest: "list_all (\<lambda>f. file_rows rnd fs (datadir @ ''/'' @ f) = Inr (rows_of f)) files"
    by simp_all
  from f obtain content where o: "open_file fs (datadir @ ''/'' @ f) = Inr content"
    and r: "read_run rnd (file_lines content) [] = Inr (rows_of f)"
    by (auto simp: file_rows_def split: sum.splits)
  have "read_lockindata rnd (file_lines content) acc = Inr (acc @ rows_of f)"
    using r by (simp add: read_lockindata_eq read_run_acc [of rnd _ acc])
  with o Cons.IH [OF rest, of "acc @ rows_of f"] show ?case by simp
qed

lemma load_run_ps_load_run: "load_run_ps rnd fs path = load_run rnd fs path"
  by (simp add: load_run_def load_run_ps_def read_run_ps_eq split: sum.splits)

lemma load_run_content:
  "open_file fs path = Inr content \<Longrightarrow>
   load_run rnd fs path =
     (case read_run rnd (file_lines content) [] of Inl e \<Rightarrow> Inl e | Inr run \<Rightarrow> Inr (asarray run))"
  by (simp add: load_run_def)

lemma well_formed_lines:
  assumes "list_all (well_formed rnd k) ls"
  shows "list_all (\<lambda>line. list_all (numeric rnd) (fields line)) ls"
    and "list_all (\<lambda>r. length r = k) (map (\<lambda>line. map (float_of rnd) (fields line)) ls)"
  using assms by (simp_all add: list_all_iff well_formed_def)

text \<open>
  C1. For every file that opens, has at least one line, and whose lines each have the same
  number \<open>k\<close> of comma-separated fields, all numeric, the loader returns a two-dimensional
  table of shape (number of lines, \<open>k\<close>) whose row \<open>i\<close> holds, in order, the floats of the
  fields of line \<open>i\<close> after stripping, lowercasing and splitting on commas. The lock-in
  loader and the power-supply loader both do. (A file with no line gives an empty
  one-dimensional array instead: see the counterexample.)
\<close>

theorem load_well_formed_file:
  assumes "open_file fs path = Inr content"
    and "file_lines content \<noteq> []"
    and "list_all (well_formed rnd k) (file_lines content)"
  shows "\<exists>rows. load_run rnd fs path = Inr (Array2 k rows)
           \<and> shape (Array2 k rows) = [length (file_lines content), k]
           \<and> rows = map (\<lambda>line. map (float_of rnd) (fields line)) (file_lines content)
           \<and> table2d (Array2 k rows)
           \<and> load_run_ps rnd fs path = Inr (Array2 k rows)"
proof -
  let ?rows = "map (\<lambda>line. map (float_of rnd) (fields line)) (file_lines content)"
  have r: "read_run rnd (file_lines content) [] = Inr ?rows"
    using well_formed_lines(1) [OF assms(3)] by (simp add: read_run_ok)
  have rect: "list_all (\<lambda>r. length r = k) ?rows"
    by (rule well_formed_lines(2) [OF assms(3)])
  have ne: "?rows \<noteq> []" using assms(2) by simp
  have a: "asarray ?rows = Array2 k ?rows"
    by (rule asarray_rect [OF ne rect])
  have l: "load_run rnd fs path = Inr (Array2 k ?rows)"
    using r a by (simp add: load_run_content [OF assms(1)])
  obtain line where "line \<in> set (file_lines content)"
    using assms(2) by (cases "file_lines content") auto
  with assms(3) have "length (fields line) = k"
    by (simp add: list_all_iff well_formed_def)
  with fields_nonempty [of line] have k: "0 < k" by auto
  have t: "table2d (Array2 k ?rows)" using k rect by simp
  have p: "load_run_ps rnd fs path = Inr (Array2 k ?rows)"
    using l by (simp add: load_run_ps_load_run)
  from l t p show ?thesis by simp
qed

theorem load_well_formed_file_witness:
  "load_run Finite [''/path/to/data/a.log'' \<mapsto> ''10.5,2E-1\<newline>13, 3 \<newline>'']
     ''/path/to/data/a.log''
   = Inr (Array2 2 [[Finite (21 / 2), Finite (1 / 5)], [Finite 13, Finite 3]])"
proof -
  let ?c = "''10.5,2E-1\<newline>13, 3 \<newline>''"
  let ?fs = "[''/path/to/data/a.log'' \<mapsto> ?c]"
  have f: "open_file ?fs ''/path/to/data/a.log'' = Inr ?c" by (simp add: open_file_def)
  have n: "file_lines ?c \<noteq> []" by simp
  have w: "list_all (well_formed Finite 2) (file_lines ?c)" by code_simp
  have m: "map (\<lambda>line. map (float_of Finite) (fields line)) (file_lines ?c)
        = [[Finite (21 / 2), Finite (1 / 5)], [Finite 13, Finite 3]]"
    by code_simp
  from load_well_formed_file [OF f n w] m show ?thesis by auto
qed

theorem load_empty_file_counterexample:
  "file_lines '''' = []
   \<and> list_all (well_formed Finite 2) (file_lines '''')
   \<and> load_run Finite [''/path/to/data/empty.log'' \<mapsto> ''''] ''/path/to/data/empty.log''
       = Inr (Array1 [])
   \<and> shape (Array1 []) = [0]
   \<and> \<not> table2d (Array1 [])"
  by (simp add: load_run_def open_file_def asarray_def)

text \<open>
  C7. Given the same file system, the lock-in loading code and the power-supply loading
  code return the same result, for one file and for a list of files: the same table, or
  the same exception.
\<close>

theorem lockin_and_ps_loaders_agree:
  "load_run rnd fs path = load_run_ps rnd fs path
   \<and> load_lockindata rnd fs files = load_psdata rnd fs files"
  by (simp add: load_run_def load_run_ps_def read_run_ps_eq
        load_lockindata_def load_psdata_def load_psfiles_eq split: sum.splits)

theorem lockin_and_ps_loaders_agree_witness:
  "load_run Finite [''/path/to/data/a.log'' \<mapsto> ''1,2\<newline>3,4\<newline>''] ''/path/to/data/a.log''
     = Inr (Array2 2 [[Finite 1, Finite 2], [Finite 3, Finite 4]])
   \<and> load_run_ps Finite [''/path/to/data/a.log'' \<mapsto> ''1,2\<newline>3,4\<newline>''] ''/path/to/data/a.log''
     = Inr (Array2 2 [[Finite 1, Finite 2], [Finite 3, Finite 4]])
   \<and> load_lockindata Finite [''/path/to/data/a.log'' \<mapsto> ''1,2\<newline>3,4\<newline>''] [''a.log'']
     = load_psdata Finite [''/path/to/data/a.log'' \<mapsto> ''1,2\<newline>3,4\<newline>''] [''a.log'']"
proof -
  have "load_run Finite [''/path/to/data/a.log'' \<mapsto> ''1,2\<newline>3,4\<newline>''] ''/path/to/data/a.log''
     = Inr (Array2 2 [[Finite 1, Finite 2], [Finite 3, Finite 4]])"
    by code_simp
  with lockin_and_ps_loaders_agree
    [of Finite "[''/path/to/data/a.log'' \<mapsto> ''1,2\<newline>3,4\<newline>'']" "''/path/to/data/a.log''" "[''a.log'']"]
  show ?thesis by simp
qed

lemma py_float_empty: "py_float rnd [] = Inl ValueError"
  by (simp add: py_float_def py_strip_def parse_sign_def parse_decimal_def parse_inf_or_nan_def)

lemma empty_line_not_numeric:
  "py_strip line = [] \<Longrightarrow> \<not> list_all (numeric rnd) (fields line)"
  by (simp add: fields_def py_lower_def numeric_def py_float_empty)

lemma asarray_ragged_pair:
  assumes "r1 \<in> set rows" and "r2 \<in> set rows" and "length r1 \<noteq> length r2"
  shows "asarray rows = ObjArray rows"
proof (cases rows)
  case Nil
  with assms(1) show ?thesis by simp
next
  case (Cons r rs)
  have "\<not> list_all (\<lambda>r'. length r' = length r) rs"
  proof
    assume "list_all (\<lambda>r'. length r' = length r) rs"
    then have "\<forall>r' \<in> set rows. length r' = length r"
      by (simp add: Cons list_all_iff)
    with assms show False by simp
  qed
  then show ?thesis by (simp add: asarray_def Cons)
qed

lemma threshold_filter_ObjArray: "threshold_filter rnd threshold (ObjArray rows) = Inl IndexError"
  by (simp add: threshold_filter_def column0_def)

text \<open>
  C3. For every file that opens: if a line is empty after stripping, or a field of a line
  is not numeric, the load raises \<^verbatim>\<open>ValueError\<close> and returns nothing. If every field is
  numeric and two lines have different numbers of fields (a ragged file), the load does
  not fail: \<^verbatim>\<open>np.asarray\<close> returns a one-dimensional array of the row objects, which is
  not a table, and the filter's column indexing raises \<^verbatim>\<open>IndexError\<close> on it.
\<close>

theorem load_malformed_file:
  assumes "open_file fs path = Inr content"
  shows "((\<exists>line \<in> set (file_lines content).
             py_strip line = [] \<or> (\<exists>f \<in> set (fields line). \<not> numeric rnd f))
           \<longrightarrow> load_run rnd fs path = Inl ValueError)
       \<and> ((\<forall>line \<in> set (file_lines content). \<forall>f \<in> set (fields line). numeric rnd f)
            \<and> (\<exists>l1 \<in> set (file_lines content). \<exists>l2 \<in> set (file_lines content).
                  length (fields l1) \<noteq> length (fields l2))
           \<longrightarrow> load_run rnd fs path
                 = Inr (ObjArray (map (\<lambda>line. map (float_of rnd) (fields line)) (file_lines content)))
               \<and> threshold_filter rnd threshold
                   (ObjArray (map (\<lambda>line. map (float_of rnd) (fields line)) (file_lines content)))
                 = Inl IndexError)"
proof (intro conjI impI)
  assume "\<exists>line \<in> set (file_lines content).
             py_strip line = [] \<or> (\<exists>f \<in> set (fields line). \<not> numeric rnd f)"
  then obtain line where m: "line \<in> set (file_lines content)"
    and bad: "py_strip line = [] \<or> (\<exists>f \<in> set (fields line). \<not> numeric rnd f)"
    by blast
  from bad have "\<not> list_all (numeric rnd) (fields line)"
    using empty_line_not_numeric [of line rnd] by (auto simp: list_all_iff)
  with m have "\<not> list_all (\<lambda>line. list_all (numeric rnd) (fields line)) (file_lines content)"
    by (auto simp: list_all_iff)
  then have "read_run rnd (file_lines content) [] = Inl ValueError"
    by (rule read_run_fail)
  then show "load_run rnd fs path = Inl ValueError"
    by (simp add: load_run_content [OF assms])
next
  let ?rows = "map (\<lambda>line. map (float_of rnd) (fields line)) (file_lines content)"
  assume h: "(\<forall>line \<in> set (file_lines content). \<forall>f \<in> set (fields line). numeric rnd f)
            \<and> (\<exists>l1 \<in> set (file_lines content). \<exists>l2 \<in> set (file_lines content).
                  length (fields l1) \<noteq> length (fields l2))"
  then have "list_all (\<lambda>line. list_all (numeric rnd) (fields line)) (file_lines content)"
    by (simp add: list_all_iff)
  then have r: "read_run rnd (file_lines content) [] = Inr ?rows"
    by (simp add: read_run_ok)
  from h obtain l1 l2 where "l1 \<in> set (file_lines content)" "l2 \<in> set (file_lines content)"
    and "length (fields l1) \<noteq> length (fields l2)" by blast
  then have "map (float_of rnd) (fields l1) \<in> set ?rows"
    and "map (float_of rnd) (fields l2) \<in> set ?rows"
    and "length (map (float_of rnd) (fields l1)) \<noteq> length (map (float_of rnd) (fields l2))"
    by simp_all
  then have "asarray ?rows = ObjArray ?rows"
    by (rule asarray_ragged_pair)
  with r show "load_run rnd fs path = Inr (ObjArray ?rows)"
    by (simp add: load_run_content [OF assms])
  show "threshold_filter rnd threshold (ObjArray ?rows) = Inl IndexError"
    by (rule threshold_filter_ObjArray)
qed

theorem load_malformed_file_witness:
  "load_run Finite [''/path/to/data/a.log'' \<mapsto> ''1,2\<newline>\<newline>3,x\<newline>''] ''/path/to/data/a.log''
     = Inl ValueError
   \<and> load_run Finite [''/path/to/data/b.log'' \<mapsto> ''1,2\<newline>7,8,9\<newline>''] ''/path/to/data/b.log''
     = Inr (ObjArray [[Finite 1, Finite 2], [Finite 7, Finite 8, Finite 9]])"
proof -
  let ?a = "''1,2\<newline>\<newline>3,x\<newline>''" and ?b = "''1,2\<newline>7,8,9\<newline>''"
  have oa: "open_file [''/path/to/data/a.log'' \<mapsto> ?a] ''/path/to/data/a.log'' = Inr ?a"
    by (simp add: open_file_def)
  have ob: "open_file [''/path/to/data/b.log'' \<mapsto> ?b] ''/path/to/data/b.log'' = Inr ?b"
    by (simp add: open_file_def)
  have la: "file_lines ?a = [''1,2\<newline>'', ''\<newline>'', ''3,x\<newline>'']" by simp
  have lb: "file_lines ?b = [''1,2\<newline>'', ''7,8,9\<newline>'']" by simp
  have ea: "py_strip ''\<newline>'' = []" by (simp add: py_strip_def isspace_def)
  have fb: "fields ''1,2\<newline>'' = [''1'', ''2''] \<and> fields ''7,8,9\<newline>'' = [''7'', ''8'', ''9'']"
    by code_simp
  have nb: "list_all (numeric Finite) [''1'', ''2'', ''7'', ''8'', ''9'']" by code_simp
  have vb: "map (float_of Finite) [''1'', ''2''] = [Finite 1, Finite 2]
          \<and> map (float_of Finite) [''7'', ''8'', ''9''] = [Finite 7, Finite 8, Finite 9]"
    by code_simp
  from load_malformed_file [OF oa, of Finite] la ea
  have 1: "load_run Finite [''/path/to/data/a.log'' \<mapsto> ?a] ''/path/to/data/a.log'' = Inl ValueError"
    by simp
  have hb: "(\<forall>line \<in> set (file_lines ?b). \<forall>f \<in> set (fields line). numeric Finite f)
            \<and> (\<exists>l1 \<in> set (file_lines ?b). \<exists>l2 \<in> set (file_lines ?b).
                  length (fields l1) \<noteq> length (fields l2))"
    using fb nb by (auto simp: lb)
  from load_malformed_file [OF ob, of Finite] hb
  have "load_run Finite [''/path/to/data/b.log'' \<mapsto> ?b] ''/path/to/data/b.log''
     = Inr (ObjArray (map (\<lambda>line. map (float_of Finite) (fields line)) (file_lines ?b)))"
    by blast
  then have 2: "load_run Finite [''/path/to/data/b.log'' \<mapsto> ?b] ''/path/to/data/b.log''
     = Inr (ObjArray [[Finite 1, Finite 2], [Finite 7, Finite 8, Finite 9]])"
    using fb vb by (simp add: lb)
  from 1 2 show ?thesis by simp
qed

theorem load_ragged_file_counterexample:
  "file_lines ''1,2\<newline>3\<newline>'' = [''1,2\<newline>'', ''3\<newline>'']
   \<and> length (fields ''1,2\<newline>'') = 2 \<and> length (fields ''3\<newline>'') = 1
   \<and> load_run Finite [''/path/to/data/ragged.log'' \<mapsto> ''1,2\<newline>3\<newline>'']
        ''/path/to/data/ragged.log''
     = Inr (ObjArray [[Finite 1, Finite 2], [Finite 3]])"
  by code_simp

lemma read_run_rows:
  "read_run rnd ls [] = Inr rows \<Longrightarrow>
   rows = map (\<lambda>line. map (float_of rnd) (fields line)) ls"
  by (cases "list_all (\<lambda>line. list_all (numeric rnd) (fields line)) ls")
     (simp_all add: read_run_ok read_run_fail)

lemma file_rows_no_empty_row:
  "file_rows rnd fs path = Inr rows \<Longrightarrow> [] \<notin> set rows"
  by (auto simp: file_rows_def fields_nonempty split: sum.splits dest!: read_run_rows)

lemma file_loads_rows:
  "file_loads rnd fs f \<Longrightarrow>
   file_rows rnd fs (datadir @ ''/'' @ f) = Inr (rows_of_file rnd fs f)"
  by (cases "file_rows rnd fs (datadir @ ''/'' @ f)")
     (simp_all add: file_loads_def rows_of_file_def)

lemma all_rows_no_empty_row:
  "list_all (file_loads rnd fs) files \<Longrightarrow> [] \<notin> set (all_rows rnd fs files)"
  using file_rows_no_empty_row file_loads_rows
  by (fastforce simp: all_rows_def list_all_iff)

lemma load_lockinfiles_all_rows:
  assumes "list_all (file_loads rnd fs) files"
  shows "load_lockinfiles rnd fs files [] = Inr (all_rows rnd fs files)"
proof -
  from assms have "list_all (\<lambda>f. file_rows rnd fs (datadir @ ''/'' @ f)
                                = Inr (rows_of_file rnd fs f)) files"
    using file_loads_rows [of rnd fs] by (simp add: list_all_iff)
  from load_lockinfiles_concat [OF this, of "[]"] show ?thesis
    by (simp add: all_rows_def)
qed

lemma load_lockinfiles_fail:
  "\<not> list_all (file_loads rnd fs) files \<Longrightarrow> \<exists>e. load_lockinfiles rnd fs files acc = Inl e"
proof (induction files arbitrary: acc)
  case Nil
  then show ?case by simp
next
  case (Cons f files)
  show ?case
  proof (cases "open_file fs (datadir @ ''/'' @ f)")
    case (Inl e)
    then show ?thesis by simp
  next
    case (Inr content)
    show ?thesis
    proof (cases "read_run rnd (file_lines content) []")
      case (Inl e)
      then have "read_lockindata rnd (file_lines content) acc = Inl e"
        by (simp add: read_lockindata_eq read_run_acc [of rnd _ acc])
      with Inr show ?thesis by simp
    next
      case r: (Inr rows)
      then have "file_loads rnd fs f"
        using Inr by (simp add: file_loads_def file_rows_def)
      with Cons.prems have "\<not> list_all (file_loads rnd fs) files" by simp
      from Cons.IH [OF this] obtain e where
        "load_lockinfiles rnd fs files (acc @ rows) = Inl e" by blast
      moreover have "read_lockindata rnd (file_lines content) acc = Inr (acc @ rows)"
        using r by (simp add: read_lockindata_eq read_run_acc [of rnd _ acc])
      ultimately show ?thesis using Inr by simp
    qed
  qed
qed

lemma load_psdata_load_lockindata: "load_psdata rnd fs files = load_lockindata rnd fs files"
  by (simp add: load_lockindata_def load_psdata_def load_psfiles_eq)

text \<open>
  C9. For every list of file names, with the files' rows taken file after file in the
  order of the list and each file's rows together in the file's order:
  when every file opens and parses, there is at least one row, and all rows have the same
  width \<open>k\<close>, the multi-file load returns the single two-dimensional table of exactly these
  rows; when every file opens and parses but there is no row, it returns an empty
  one-dimensional array; when two rows differ in width, it returns a one-dimensional array
  of the row objects; and when a file does not open or a line does not parse, it raises.
  The lock-in cell and the power-supply cell both do.
\<close>

theorem load_all_concatenates:
  "(list_all (file_loads rnd fs) files \<and> all_rows rnd fs files \<noteq> []
      \<and> list_all (\<lambda>r. length r = k) (all_rows rnd fs files)
    \<longrightarrow> load_lockindata rnd fs files = Inr (Array2 k (all_rows rnd fs files))
        \<and> load_psdata rnd fs files = Inr (Array2 k (all_rows rnd fs files))
        \<and> table2d (Array2 k (all_rows rnd fs files))
        \<and> shape (Array2 k (all_rows rnd fs files)) = [length (all_rows rnd fs files), k])
   \<and> (list_all (file_loads rnd fs) files \<and> all_rows rnd fs files = []
    \<longrightarrow> load_lockindata rnd fs files = Inr (Array1 [])
        \<and> load_psdata rnd fs files = Inr (Array1 []))
   \<and> (list_all (file_loads rnd fs) files
      \<and> (\<exists>r1 \<in> set (all_rows rnd fs files). \<exists>r2 \<in> set (all_rows rnd fs files).
            length r1 \<noteq> length r2)
    \<longrightarrow> load_lockindata rnd fs files = Inr (ObjArray (all_rows rnd fs files))
        \<and> load_psdata rnd fs files = Inr (ObjArray (all_rows rnd fs files)))
   \<and> (\<not> list_all (file_loads rnd fs) files
    \<longrightarrow> (\<exists>e. load_lockindata rnd fs files = Inl e)
        \<and> (\<exists>e. load_psdata rnd fs files = Inl e))"
proof -
  let ?rows = "all_rows rnd fs files"
  have rect: "load_lockindata rnd fs files = Inr (Array2 k ?rows) \<and> table2d (Array2 k ?rows)"
    if ok: "list_all (file_loads rnd fs) files" and ne: "?rows \<noteq> []"
      and w: "list_all (\<lambda>r. length r = k) ?rows"
  proof -
    have "asarray ?rows = Array2 k ?rows" by (rule asarray_rect [OF ne w])
    then have l: "load_lockindata rnd fs files = Inr (Array2 k ?rows)"
      by (simp add: load_lockindata_def load_lockinfiles_all_rows [OF ok])
    from ne obtain r where r: "r \<in> set ?rows" by (cases ?rows) auto
    with all_rows_no_empty_row [OF ok] have "r \<noteq> []" by auto
    moreover from r w have "length r = k" by (simp add: list_all_iff)
    ultimately have "0 < k" by auto
    with w l show ?thesis by simp
  qed
  have none: "load_lockindata rnd fs files = Inr (Array1 [])"
    if ok: "list_all (file_loads rnd fs) files" and e: "?rows = []"
    by (simp add: load_lockindata_def load_lockinfiles_all_rows [OF ok] e asarray_def)
  have ragged: "load_lockindata rnd fs files = Inr (ObjArray ?rows)"
    if ok: "list_all (file_loads rnd fs) files"
      and d: "\<exists>r1 \<in> set ?rows. \<exists>r2 \<in> set ?rows. length r1 \<noteq> length r2"
  proof -
    from d obtain r1 r2 where "r1 \<in> set ?rows" "r2 \<in> set ?rows" "length r1 \<noteq> length r2"
      by blast
    then have "asarray ?rows = ObjArray ?rows" by (rule asarray_ragged_pair)
    then show ?thesis
      by (simp add: load_lockindata_def load_lockinfiles_all_rows [OF ok])
  qed
  have fails: "\<exists>e. load_lockindata rnd fs files = Inl e"
    if "\<not> list_all (file_loads rnd fs) files"
    using load_lockinfiles_fail [OF that, of "[]"] by (auto simp: load_lockindata_def)
  from rect none ragged fails show ?thesis
    by (simp add: load_psdata_load_lockindata)
qed

theorem load_all_concatenates_witness:
  "load_lockindata Finite
     [''/path/to/data/lock-in-1.log'' \<mapsto> ''1,2\<newline>3,4\<newline>'',
      ''/path/to/data/lock-in-2.log'' \<mapsto> ''5,6\<newline>'']
     [''lock-in-1.log'', ''lock-in-2.log'']
   = Inr (Array2 2 [[Finite 1, Finite 2], [Finite 3, Finite 4], [Finite 5, Finite 6]])
   \<and> load_psdata Finite
     [''/path/to/data/lock-in-1.log'' \<mapsto> ''1,2\<newline>3,4\<newline>'',
      ''/path/to/data/lock-in-2.log'' \<mapsto> ''5,6\<newline>'']
     [''lock-in-1.log'', ''lock-in-2.log'']
   = Inr (Array2 2 [[Finite 1, Finite 2], [Finite 3, Finite 4], [Finite 5, Finite 6]])"
proof -
  let ?fs = "[''/path/to/data/lock-in-1.log'' \<mapsto> ''1,2\<newline>3,4\<newline>'',
      ''/path/to/data/lock-in-2.log'' \<mapsto> ''5,6\<newline>'']"
  let ?files = "[''lock-in-1.log'', ''lock-in-2.log'']"
  have ok: "list_all (file_loads Finite ?fs) ?files"
    by code_simp
  have rows: "all_rows Finite ?fs ?files
                = [[Finite 1, Finite 2], [Finite 3, Finite 4], [Finite 5, Finite 6]]"
    by code_simp
  have h: "list_all (file_loads Finite ?fs) ?files \<and> all_rows Finite ?fs ?files \<noteq> []
      \<and> list_all (\<lambda>r. length r = 2) (all_rows Finite ?fs ?files)"
    using ok by (simp add: rows)
  from load_all_concatenates [of Finite ?fs ?files 2] h
  have "load_lockindata Finite ?fs ?files = Inr (Array2 2 (all_rows Finite ?fs ?files))
      \<and> load_psdata Finite ?fs ?files = Inr (Array2 2 (all_rows Finite ?fs ?files))"
    by blast
  then show ?thesis by (simp add: rows)
qed

theorem load_all_not_a_table_counterexample:
  "load_lockindata Finite Map.empty [] = Inr (Array1 [])
   \<and> \<not> table2d (Array1 [])
   \<and> file_rows Finite
        [''/path/to/data/lock-in-1.log'' \<mapsto> ''1,2\<newline>'',
         ''/path/to/data/lock-in-2.log'' \<mapsto> ''3,4,5\<newline>'']
        ''/path/to/data/lock-in-1.log''
       = Inr [[Finite 1, Finite 2]]
   \<and> file_rows Finite
        [''/path/to/data/lock-in-1.log'' \<mapsto> ''1,2\<newline>'',
         ''/path/to/data/lock-in-2.log'' \<mapsto> ''3,4,5\<newline>'']
        ''/path/to/data/lock-in-2.log''
       = Inr [[Finite 3, Finite 4, Finite 5]]
   \<and> load_lockindata Finite
        [''/path/to/data/lock-in-1.log'' \<mapsto> ''1,2\<newline>'',
         ''/path/to/data/lock-in-2.log'' \<mapsto> ''3,4,5\<newline>'']
        [''lock-in-1.log'', ''lock-in-2.log'']
       = Inr (ObjArray [[Finite 1, Finite 2], [Finite 3, Finite 4, Finite 5]])
   \<and> \<not> table2d (ObjArray [[Finite 1, Finite 2], [Finite 3, Finite 4, Finite 5]])"
  by code_simp

subsection \<open>The lowercasing step\<close>

lemma of_char_tolower:
  "(of_char (tolower c) :: nat) =
     (if 65 \<le> (of_char c :: nat) \<and> (of_char c :: nat) \<le> 90 then of_char c + 32 else of_char c)"
  by (simp add: tolower_def)

lemma char_eq_code: "c = d \<longleftrightarrow> (of_char c :: nat) = of_char d"
  by simp

lemma isspace_tolower: "isspace (tolower c) = isspace c"
  by (auto simp: isspace_def of_char_tolower)

lemma isdigit_tolower: "isdigit (tolower c) = isdigit c"
  by (auto simp: isdigit_def of_char_tolower)

lemma tolower_digit: "isdigit c \<Longrightarrow> tolower c = c"
  by (simp add: isdigit_def tolower_def)

lemma tolower_idem: "tolower (tolower c) = tolower c"
  by (auto simp: char_eq_code [of "tolower (tolower c)"] of_char_tolower)

lemma tolower_eq_minus: "tolower c = CHR ''-'' \<longleftrightarrow> c = CHR ''-''"
  by (auto simp: char_eq_code [of _ "CHR ''-''"] of_char_tolower)

lemma tolower_eq_plus: "tolower c = CHR ''+'' \<longleftrightarrow> c = CHR ''+''"
  by (auto simp: char_eq_code [of _ "CHR ''+''"] of_char_tolower)

lemma tolower_eq_point: "tolower c = CHR ''.'' \<longleftrightarrow> c = CHR ''.''"
  by (auto simp: char_eq_code [of _ "CHR ''.''"] of_char_tolower)

lemma tolower_eq_comma: "tolower c = CHR '','' \<longleftrightarrow> c = CHR '',''"
  by (auto simp: char_eq_code [of _ "CHR '',''"] of_char_tolower)

lemma tolower_eq_e: "tolower c = CHR ''e'' \<longleftrightarrow> c = CHR ''e'' \<or> c = CHR ''E''"
  by (auto simp: char_eq_code [of _ "CHR ''e''"] char_eq_code [of _ "CHR ''E''"] of_char_tolower)

lemma tolower_neq_E: "tolower c \<noteq> CHR ''E''"
  by (auto simp: char_eq_code [of _ "CHR ''E''"] of_char_tolower)

lemma dropWhile_isspace_lower:
  "dropWhile isspace (map tolower s) = map tolower (dropWhile isspace s)"
  by (induction s) (simp_all add: isspace_tolower)

lemma py_strip_lower: "py_strip (map tolower s) = map tolower (py_strip s)"
  by (simp add: py_strip_def rev_map dropWhile_isspace_lower)

lemma takeWhile_isdigit_lower: "takeWhile isdigit (map tolower s) = takeWhile isdigit s"
  by (induction s) (simp_all add: isdigit_tolower tolower_digit)

lemma dropWhile_isdigit_lower:
  "dropWhile isdigit (map tolower s) = map tolower (dropWhile isdigit s)"
  by (induction s) (simp_all add: isdigit_tolower)

lemma py_split_lower:
  "py_split CHR '','' (map tolower s) = map (map tolower) (py_split CHR '','' s)"
  by (induction s) (simp_all add: tolower_eq_comma py_split_nonempty hd_map map_tl)

lemma parse_sign_lower:
  "parse_sign (map tolower s) = (fst (parse_sign s), map tolower (snd (parse_sign s)))"
  by (cases s) (simp_all add: parse_sign_def tolower_eq_minus tolower_eq_plus)

lemma parse_exponent_lower:
  "parse_exponent (map tolower s) = (fst (parse_exponent s), map tolower (snd (parse_exponent s)))"
proof (cases s)
  case Nil
  then show ?thesis by (simp add: parse_exponent_def)
next
  case (Cons c r)
  obtain neg r' where ps: "parse_sign r = (neg, r')" by (cases "parse_sign r")
  then have psl: "parse_sign (map tolower r) = (neg, map tolower r')"
    by (simp add: parse_sign_lower)
  show ?thesis
    by (simp add: Cons parse_exponent_def tolower_eq_e tolower_neq_E ps psl
          takeWhile_isdigit_lower dropWhile_isdigit_lower Let_def)
qed

lemma fraction_lower:
  "(case map tolower r1 of
      [] \<Rightarrow> ([], map tolower r1)
    | c # r \<Rightarrow> if c = CHR ''.'' then (takeWhile isdigit r, dropWhile isdigit r)
               else ([], map tolower r1))
   = (\<lambda>(fp, r2). (fp, map tolower r2))
       (case r1 of
          [] \<Rightarrow> ([], r1)
        | c # r \<Rightarrow> if c = CHR ''.'' then (takeWhile isdigit r, dropWhile isdigit r)
                   else ([], r1))"
  by (cases r1) (simp_all add: tolower_eq_point takeWhile_isdigit_lower dropWhile_isdigit_lower)

lemma parse_decimal_lower:
  "parse_decimal (map tolower s) =
     map_option (\<lambda>(t, r). (t, map tolower r)) (parse_decimal s)"
  by (simp add: parse_decimal_def Let_def takeWhile_isdigit_lower dropWhile_isdigit_lower
        fraction_lower parse_exponent_lower split: prod.splits)

lemma tolower_comp: "tolower \<circ> tolower = tolower"
  by (simp add: fun_eq_iff tolower_idem)

lemma parse_inf_or_nan_lower:
  "parse_inf_or_nan (map tolower s) =
     map_option (\<lambda>(v, r). (v, map tolower r)) (parse_inf_or_nan s)"
  by (simp add: parse_inf_or_nan_def take_map drop_map tolower_comp)

lemma py_float_lower: "py_float rnd (map tolower s) = py_float rnd s"
proof -
  obtain neg u where ps: "parse_sign (py_strip s) = (neg, u)"
    by (cases "parse_sign (py_strip s)")
  then have psl: "parse_sign (py_strip (map tolower s)) = (neg, map tolower u)"
    by (simp add: py_strip_lower parse_sign_lower)
  show ?thesis
    by (simp add: py_float_def ps psl parse_decimal_lower parse_inf_or_nan_lower
          split: option.splits prod.splits)
qed

lemma map_float_lower: "map_float rnd (map (map tolower) fs) = map_float rnd fs"
  by (induction fs) (simp_all add: py_float_lower split: sum.splits)

text \<open>
  C10. For every line, parsing it with the \<^verbatim>\<open>lower()\<close> step gives the same result as
  parsing it without: the same row of floats when every field is numeric, and the same
  exception otherwise. \<^verbatim>\<open>float\<close> reads the exponent letter and the words \<^verbatim>\<open>inf\<close>,
  \<^verbatim>\<open>infinity\<close> and \<^verbatim>\<open>nan\<close> in either case, and lowercasing changes no digit, sign, point,
  comma or white space.
\<close>

theorem lowercasing_is_redundant:
  "parse_line rnd line = parse_line_no_lower rnd line
   \<and> (\<forall>f. py_float rnd (py_lower f) = py_float rnd f)"
  by (simp add: parse_line_def parse_line_no_lower_def py_lower_def py_split_lower
        map_float_lower py_float_lower)

theorem lowercasing_is_redundant_witness:
  "parse_line Finite ''1E3,-INF,2.5\<newline>'' = Inr [Finite 1000, NegInf, Finite (5 / 2)]
   \<and> parse_line_no_lower Finite ''1E3,-INF,2.5\<newline>'' = Inr [Finite 1000, NegInf, Finite (5 / 2)]"
proof -
  have "parse_line Finite ''1E3,-INF,2.5\<newline>'' = Inr [Finite 1000, NegInf, Finite (5 / 2)]"
    by code_simp
  with lowercasing_is_redundant [of Finite "''1E3,-INF,2.5\<newline>''"] show ?thesis by simp
qed

end
